theory Spec2Isabelle
  imports Main
begin

section \<open>Promises, collaborator calls and the observable world\<close>

text \<open>
  The TypeScript sources are \<open>async\<close> functions that \<open>await\<close> collaborators whose
  code is outside the files at hand (the Twitter scraper, the Supabase tables, the LLM
  agents, the learning pipeline). An awaited promise settles with a value, settles with a
  thrown value, or never settles.
\<close>

datatype ('e, 'a) promise = Resolved 'a | Rejected 'e | Pending

text \<open>
  The loop of \<open>index.ts\<close> only prints what it catches, so there a thrown value is kept as
  the text printed for it.
\<close>

type_synonym 'a outcome = "(string, 'a) promise"

text \<open>
  \<open>replyToTweet\<close> reads \<open>error.message\<close> of what it catches, so there a thrown value
  is an object with a \<open>message\<close>, some other value that has none (with the text printed
  for it), or \<open>null\<close> or \<open>undefined\<close> (with its name), on which the read itself throws.
\<close>

datatype thrown = ErrorObject string | NonError string | Nullish string

type_synonym 'a reply_outcome = "(thrown, 'a) promise"

text \<open>A \<open>Date\<close>: a valid one with its ISO string, or an invalid one.\<close>

datatype js_date = ValidDate string | InvalidDate

text \<open>The target tweet as \<open>scraper.getTweet\<close> returns it: every field read is optional.\<close>

record tweet =
  username :: "string option"
  tweet_text :: "string option"
  timeParsed :: "js_date option"

text \<open>A chat message of the terminal agent (\<open>Message\<close> in \<open>agentSystem\<close>).\<close>

record message =
  role :: string
  content :: string

text \<open>The argument of \<open>logTweet\<close>.\<close>

record tweet_entry =
  tweet_id :: string
  entry_text :: string
  tweet_type :: string
  has_media :: bool
  in_reply_to_tweet_id :: string
  created_at :: string

text \<open>The argument of \<open>logTwitterInteraction\<close>.\<close>

record interaction_entry =
  tweetId_i :: string
  userTweetText :: string
  userTweetTimestamp :: string
  userId_i :: string
  context_i :: string
  twitterInterface_i :: "string option"

text \<open>
  Every call that leaves the function under study is recorded, in order, with its
  arguments. The trace is what a side effect is: a call that is not in the trace was not
  made.
\<close>

datatype call =
    HasAlreadyActioned string string
  | GetTweet string
  | PrepareMediaData "string list"
  | LikeTweet string
  | SendTweet string string "string option"
  | ResponseJson
  | LogTweet tweet_entry "string option"
  | FindOrCreateUserFromTweet tweet
  | AnalyzeTweetContext tweet
  | LogTwitterInteraction interaction_entry
  | GetShortTermHistory nat
  | LoadChatHistory "message list"
  | AgentRun
  | CreateTerminalEntry string string string string
  | ExecuteCommand string
  | UpdateTerminalResponse string string
  | StoreTerminalMessage message string
  | SetTimeout nat
  | ExtractAndSaveLearnings string
  | ClearShortTermHistory
  | UpdateTerminalStatus bool

text \<open>How an awaited call ended, kept beside the call in the trace.\<close>

datatype status = Fulfilled | Failed | Unsettled

fun status_of :: "('e, 'a) promise \<Rightarrow> status" where
  "status_of (Resolved _) = Fulfilled"
| "status_of (Rejected _) = Failed"
| "status_of Pending = Unsettled"

record world =
  calls :: "(call \<times> status) list"
  logs :: "string list"

text \<open>The calls made between two worlds of one run.\<close>

definition new_calls :: "world \<Rightarrow> world \<Rightarrow> (call \<times> status) list" where
  "new_calls w w' = drop (length (calls w)) (calls w')"

type_synonym ('e, 'a) gprog = "world \<Rightarrow> ('e, 'a) promise \<times> world"

type_synonym 'a prog = "(string, 'a) gprog"

type_synonym 'a reply_prog = "(thrown, 'a) gprog"

definition ret :: "'a \<Rightarrow> ('e, 'a) gprog" where
  "ret v w = (Resolved v, w)"

definition throw :: "'e \<Rightarrow> ('e, 'a) gprog" where
  "throw e w = (Rejected e, w)"

text \<open>\<open>Logger.log\<close> and \<open>console.error\<close>: a line is appended, nothing can fail.\<close>

definition log_line :: "string \<Rightarrow> ('e, 'a) gprog \<Rightarrow> ('e, 'a) gprog" where
  "log_line l k w = k (w\<lparr>logs := logs w @ [l]\<rparr>)"

text \<open>
  \<open>await f(args)\<close>: the call is made (it enters the trace); the continuation runs only
  when the promise resolves. A rejection propagates as a thrown error, and a promise that
  never settles leaves the caller suspended for good.
\<close>

definition await ::
  "call \<Rightarrow> ('e, 'a) promise \<Rightarrow> ('a \<Rightarrow> ('e, 'b) gprog) \<Rightarrow> ('e, 'b) gprog" where
  "await c p k w =
     (let w' = w\<lparr>calls := calls w @ [(c, status_of p)]\<rparr>
      in case p of
           Resolved v \<Rightarrow> k v w'
         | Rejected e \<Rightarrow> (Rejected e, w')
         | Pending \<Rightarrow> (Pending, w'))"

text \<open>A synchronous call of a collaborator that does not throw.\<close>

definition invoke :: "call \<Rightarrow> ('e, 'a) gprog \<Rightarrow> ('e, 'a) gprog" where
  "invoke c k w = k (w\<lparr>calls := calls w @ [(c, Fulfilled)]\<rparr>)"

text \<open>Sequencing: the rest runs only when the first part has resolved.\<close>

definition bind :: "('e, 'a) gprog \<Rightarrow> ('a \<Rightarrow> ('e, 'b) gprog) \<Rightarrow> ('e, 'b) gprog" where
  "bind m k w =
     (case m w of
        (Resolved v, w') \<Rightarrow> k v w'
      | (Rejected e, w') \<Rightarrow> (Rejected e, w')
      | (Pending, w') \<Rightarrow> (Pending, w'))"

text \<open>\<open>try { body } catch (error) { handler(error) }\<close>.\<close>

definition try_catch ::
  "('e, 'a) gprog \<Rightarrow> ('e \<Rightarrow> ('e, 'a) gprog) \<Rightarrow> ('e, 'a) gprog" where
  "try_catch body handler w =
     (case body w of
        (Rejected e, w') \<Rightarrow> handler e w'
      | r \<Rightarrow> r)"

text \<open>JavaScript truthiness of an optional string: \<open>undefined\<close> and \<open>''\<close> are falsy.\<close>

fun truthy :: "string option \<Rightarrow> bool" where
  "truthy None = False"
| "truthy (Some s) = (s \<noteq> [])"

text \<open>\<open>x || d\<close> on an optional string.\<close>

fun or_else :: "string option \<Rightarrow> string \<Rightarrow> string" where
  "or_else None d = d"
| "or_else (Some s) d = (if s = [] then d else s)"

section \<open>\<open>replyToTweet\<close> (src/twitter/functions/replyToTweet.ts)\<close>

record reply_result =
  success :: bool
  message_r :: string
  tweetId :: "string option"

text \<open>
  The outcomes of the collaborators that one call of \<open>replyToTweet\<close> can reach. Each is
  called at most once, so one outcome per collaborator fixes a run. \<open>json_raw\<close> is the
  printed response body, \<open>json_rest_id\<close> the value of the optional chain
  \<open>responseData?.data?.create_tweet?.tweet_results?.result?.rest_id\<close>.
\<close>

record json_body =
  json_raw :: string
  json_rest_id :: "string option"

record reply_env =
  hasAlreadyActioned_out :: "bool reply_outcome"
  getTweet_out :: "tweet option reply_outcome"
  prepareMediaData_out :: "string option reply_outcome"
  likeTweet_out :: "unit reply_outcome"
  sendTweet_out :: "unit reply_outcome"
  json_out :: "json_body reply_outcome"
  logTweet_out :: "bool reply_outcome"
  findOrCreateUserFromTweet_out :: "string option option reply_outcome"
  analyzeTweetContext_out :: "string reply_outcome"
  logTwitterInteraction_out :: "unit reply_outcome"
  now :: string

text \<open>
  Line 100: \<open>targetTweet.timeParsed?.toISOString() || new Date().toISOString()\<close>. On an
  invalid date \<open>toISOString\<close> throws a \<open>RangeError\<close>.
\<close>

fun timestamp_of :: "js_date option \<Rightarrow> string \<Rightarrow> thrown + string" where
  "timestamp_of None d = Inr d"
| "timestamp_of (Some InvalidDate) d = Inl (ErrorObject ''Invalid time value'')"
| "timestamp_of (Some (ValidDate isoString)) d = Inr (or_else (Some isoString) d)"

text \<open>The part of the body after the target tweet has been fetched (lines 47 to 110).\<close>

definition reply_send ::
  "reply_env \<Rightarrow> string \<Rightarrow> string \<Rightarrow> string list option \<Rightarrow> string option \<Rightarrow>
   tweet \<Rightarrow> string option \<Rightarrow> reply_result reply_prog" where
  "reply_send env replyToTweetId text mediaUrls twitterInterface targetTweet mediaData =
     await (LikeTweet replyToTweetId) (likeTweet_out env) (\<lambda>_.
     await (SendTweet text replyToTweetId mediaData) (sendTweet_out env) (\<lambda>_.
     await ResponseJson (json_out env) (\<lambda>responseData.
     if \<not> truthy (json_rest_id responseData) then
       log_line (''Failed to retrieve reply tweet ID from response: '' @ json_raw responseData)
         (ret \<lparr>success = False,
               message_r = ''Failed to retrieve reply tweet ID from response'',
               tweetId = None\<rparr>)
     else
     let replyTweetId = the (json_rest_id responseData) in
     await (LogTweet \<lparr>tweet_id = replyTweetId, entry_text = text, tweet_type = ''reply'',
                      has_media = (mediaData \<noteq> None),
                      in_reply_to_tweet_id = replyToTweetId,
                      created_at = now env\<rparr> mediaData)
           (logTweet_out env) (\<lambda>tweetLogResult.
     (if \<not> tweetLogResult then log_line ''Failed to log reply tweet'' else id)
     (await (FindOrCreateUserFromTweet targetTweet) (findOrCreateUserFromTweet_out env)
        (\<lambda>userAccounts.
     case userAccounts of
       None \<Rightarrow>
         log_line ''Failed to process user account''
           (ret \<lparr>success = False, message_r = ''Failed to process user account'',
                 tweetId = None\<rparr>)
     | Some userId \<Rightarrow>
     await (AnalyzeTweetContext targetTweet) (analyzeTweetContext_out env) (\<lambda>context.
     case timestamp_of (timeParsed targetTweet) (now env) of
       Inl rangeError \<Rightarrow> throw rangeError
     | Inr timestamp \<Rightarrow>
     await (LogTwitterInteraction
              \<lparr>tweetId_i = replyToTweetId,
               userTweetText = or_else (tweet_text targetTweet) '''',
               userTweetTimestamp = timestamp,
               userId_i = or_else userId '''',
               context_i = context,
               twitterInterface_i = twitterInterface\<rparr>)
           (logTwitterInteraction_out env) (\<lambda>_.
     log_line (''Reply sent successfully (ID: '' @ replyTweetId @ '')'')
       (ret \<lparr>success = True, message_r = ''Successfully replied to tweet'',
             tweetId = Some replyTweetId\<rparr>)))))))))"

text \<open>The body of the \<open>try\<close> block (lines 27 to 110).\<close>

definition replyToTweet_try ::
  "reply_env \<Rightarrow> string \<Rightarrow> string \<Rightarrow> string list option \<Rightarrow> string option \<Rightarrow>
   reply_result reply_prog" where
  "replyToTweet_try env replyToTweetId text mediaUrls twitterInterface =
     await (HasAlreadyActioned replyToTweetId ''reply'') (hasAlreadyActioned_out env)
       (\<lambda>hasReplied.
     if hasReplied then
       log_line (''Already replied to tweet '' @ replyToTweetId)
         (ret \<lparr>success = False, message_r = ''Already replied to this tweet'',
               tweetId = None\<rparr>)
     else
     await (GetTweet replyToTweetId) (getTweet_out env) (\<lambda>targetTweet.
     if targetTweet = None \<or> \<not> truthy (username (the targetTweet)) then
       log_line ''Failed to fetch target tweet''
         (ret \<lparr>success = False, message_r = ''Failed to fetch target tweet'',
               tweetId = None\<rparr>)
     else
     case mediaUrls of
       Some urls \<Rightarrow>
         await (PrepareMediaData urls) (prepareMediaData_out env)
           (reply_send env replyToTweetId text mediaUrls twitterInterface (the targetTweet))
     | None \<Rightarrow>
         reply_send env replyToTweetId text mediaUrls twitterInterface (the targetTweet) None))"

text \<open>
  Lines 112 to 118: the \<open>catch\<close>. It prints what was thrown and reads its \<open>message\<close>:
  of a value without one the message is \<open>undefined\<close>, and on \<open>null\<close> or \<open>undefined\<close>
  the read throws a \<open>TypeError\<close>, which leaves the function as a rejection.
\<close>

definition reply_catch :: "thrown \<Rightarrow> reply_result reply_prog" where
  "reply_catch error =
     (case error of
        ErrorObject msg \<Rightarrow>
          log_line (''Error sending reply: '' @ msg)
            (ret \<lparr>success = False, message_r = ''Failed to reply: '' @ msg,
                  tweetId = None\<rparr>)
      | NonError printed \<Rightarrow>
          log_line (''Error sending reply: '' @ printed)
            (ret \<lparr>success = False, message_r = ''Failed to reply: undefined'',
                  tweetId = None\<rparr>)
      | Nullish printed \<Rightarrow>
          log_line (''Error sending reply: '' @ printed)
            (throw (ErrorObject (''Cannot read properties of '' @ printed))))"

definition replyToTweet ::
  "reply_env \<Rightarrow> string \<Rightarrow> string \<Rightarrow> string list option \<Rightarrow> string option \<Rightarrow>
   reply_result reply_prog" where
  "replyToTweet env replyToTweetId text mediaUrls twitterInterface =
     try_catch (replyToTweet_try env replyToTweetId text mediaUrls twitterInterface)
       reply_catch"

section \<open>The agent loop of \<open>startAISystem\<close> (src/index.ts, lines 86 to 177)\<close>

text \<open>The value of \<open>terminalAgent.run()\<close>.\<close>

record function_result =
  fr_success :: bool
  internal_thought :: string
  plan :: string
  terminal_command :: string
  fr_error :: string

text \<open>The outcomes of the collaborators one agent action (lines 93 to 148) can reach.\<close>

record action_env =
  getShortTermHistory_out :: "message list outcome"
  run_out :: "function_result outcome"
  createTerminalEntry_out :: "string option outcome"
  executeCommand_out :: "string outcome"
  updateTerminalResponse_out :: "unit outcome"
  getLastAgentMessage_out :: "message option"
  storeAgentMessage_out :: "unit outcome"
  getCurrentTimestamp_out :: string
  storeOutputMessage_out :: "unit outcome"

text \<open>
  The outcomes one pass of the outer \<open>while (true)\<close> can reach: thirty actions, the memory
  processing, the idle period. \<open>idleMinutes\<close> is the value of \<open>getRandomInt(30, 60)\<close>.
\<close>

record iter_env =
  actions :: "nat \<Rightarrow> action_env"
  extractAndSaveLearnings_out :: "unit outcome"
  clearShortTermHistory_out :: "unit outcome"
  idleMinutes :: nat
  updateTerminalStatus_idle_out :: "unit outcome"
  updateTerminalStatus_resume_out :: "unit outcome"

definition MAX_ACTIONS :: nat where
  "MAX_ACTIONS = 30"

text \<open>Decimal digits of a number inside a template string.\<close>

definition digit_char :: "nat \<Rightarrow> char" where
  "digit_char d = ''0123456789'' ! d"

fun show_nat :: "nat \<Rightarrow> string" where
  "show_nat n =
     (if n < 10 then [digit_char n]
      else show_nat (n div 10) @ [digit_char (n mod 10)])"

declare show_nat.simps [simp del]

text \<open>
  Lines 97 to 105: the short-term history is loaded inside its own \<open>try\<close>; a failure is
  logged and the action goes on.
\<close>

definition load_history :: "action_env \<Rightarrow> unit prog" where
  "load_history a =
     try_catch
       (await (GetShortTermHistory 6) (getShortTermHistory_out a) (\<lambda>shortTermHistory.
        if length shortTermHistory > 0 then
          log_line ''Loading existing short-term history...''
            (invoke (LoadChatHistory shortTermHistory) (ret ()))
        else ret ()))
       (\<lambda>e. log_line (''Error loading short-term history: '' @ e) (ret ()))"

text \<open>Lines 93 to 148: one agent action.\<close>

definition agent_action :: "string \<Rightarrow> action_env \<Rightarrow> unit prog" where
  "agent_action sessionId a =
     bind (load_history a) (\<lambda>_.
     await AgentRun (run_out a) (\<lambda>functionResult.
     if \<not> fr_success functionResult then throw (fr_error functionResult)
     else
     await (CreateTerminalEntry sessionId (internal_thought functionResult)
              (plan functionResult) (terminal_command functionResult))
           (createTerminalEntry_out a) (\<lambda>entryId.
     if \<not> truthy entryId then throw ''Failed to create terminal entry''
     else
     await (ExecuteCommand (terminal_command functionResult)) (executeCommand_out a)
       (\<lambda>commandOutput.
     await (UpdateTerminalResponse (the entryId) commandOutput)
           (updateTerminalResponse_out a) (\<lambda>_.
     (case getLastAgentMessage_out a of
        Some lastAssistantMessage \<Rightarrow>
          await (StoreTerminalMessage lastAssistantMessage sessionId)
                (storeAgentMessage_out a)
      | None \<Rightarrow> (\<lambda>k. k ()))
     (\<lambda>_.
     let terminalOutputMessage =
           \<lparr>role = ''user'',
            content = ''TERMINAL OUTPUT '' @ getCurrentTimestamp_out a @ '': '' @ commandOutput\<rparr>
     in
     await (StoreTerminalMessage terminalOutputMessage sessionId)
           (storeOutputMessage_out a) (\<lambda>_.
     await (SetTimeout 60000) (Resolved ()) (\<lambda>_. ret ()))))))))"

text \<open>Lines 88 to 149: \<open>while (actionCount < MAX_ACTIONS)\<close>.\<close>

function active_period :: "string \<Rightarrow> (nat \<Rightarrow> action_env) \<Rightarrow> nat \<Rightarrow> unit prog" where
  "active_period sessionId acts actionCount w =
     (if actionCount < MAX_ACTIONS then
        (case agent_action sessionId (acts actionCount) w of
           (Resolved _, w') \<Rightarrow> active_period sessionId acts (Suc actionCount) w'
         | (Rejected e, w') \<Rightarrow> (Rejected e, w')
         | (Pending, w') \<Rightarrow> (Pending, w'))
      else (Resolved (), w))"
  by pat_completeness auto
termination
  by (relation "measure (\<lambda>(sessionId, acts, actionCount, w). MAX_ACTIONS - actionCount)") auto

declare active_period.simps [simp del]

text \<open>
  Lines 151 to 159: before the idle period the learnings are extracted and the
  short-term history is wiped, inside a \<open>try\<close> of their own.
\<close>

definition memory_processing :: "string \<Rightarrow> iter_env \<Rightarrow> unit prog" where
  "memory_processing sessionId env =
     try_catch
       (log_line ''Initiating memory processing...''
         (await (ExtractAndSaveLearnings sessionId) (extractAndSaveLearnings_out env) (\<lambda>_.
          await ClearShortTermHistory (clearShortTermHistory_out env) (\<lambda>_.
          log_line ''Memory processing complete, short-term history cleared'' (ret ())))))
       (\<lambda>e. log_line (''Error during memory processing: '' @ e) (ret ()))"

text \<open>Lines 161 to 171: the idle period.\<close>

definition idle_period :: "iter_env \<Rightarrow> unit prog" where
  "idle_period env =
     log_line (''Entering idle mode for '' @ show_nat (idleMinutes env) @ '' minutes'')
       (await (UpdateTerminalStatus False) (updateTerminalStatus_idle_out env) (\<lambda>_.
        await (SetTimeout (idleMinutes env * 60 * 1000)) (Resolved ()) (\<lambda>_.
        log_line ''Resuming active mode''
          (await (UpdateTerminalStatus True) (updateTerminalStatus_resume_out env) (\<lambda>_.
           ret ())))))"

text \<open>Lines 87 to 176: one pass of \<open>while (true)\<close>, with its \<open>catch\<close>.\<close>

definition loop_iteration :: "string \<Rightarrow> iter_env \<Rightarrow> unit prog" where
  "loop_iteration sessionId env =
     try_catch
       (bind (active_period sessionId (actions env) 0) (\<lambda>_.
        bind (memory_processing sessionId env) (\<lambda>_.
        idle_period env)))
       (\<lambda>e. log_line (''Error in AI system loop: '' @ e)
              (await (SetTimeout 5000) (Resolved ()) (\<lambda>_. ret ())))"

text \<open>
  Line 86: \<open>while (true)\<close>. The loop has no exit of its own, so the model runs a given
  number of passes: \<open>Resolved\<close> says that all of them have completed and the loop is about
  to start the next one, \<open>Rejected\<close> that an error has left the loop, \<open>Pending\<close> that the
  loop is suspended on a promise that never settles.
\<close>

fun main_loop :: "nat \<Rightarrow> string \<Rightarrow> (nat \<Rightarrow> iter_env) \<Rightarrow> nat \<Rightarrow> unit prog" where
  "main_loop 0 sessionId envs i w = (Resolved (), w)"
| "main_loop (Suc n) sessionId envs i w =
     (case loop_iteration sessionId (envs i) w of
        (Resolved _, w') \<Rightarrow> main_loop n sessionId envs (Suc i) w'
      | (Rejected e, w') \<Rightarrow> (Rejected e, w')
      | (Pending, w') \<Rightarrow> (Pending, w'))"

section \<open>Predicates on traces\<close>

text \<open>
  \<open>extends_with P m\<close>: whatever the starting world, \<open>m\<close> only appends to the trace, and
  every call it appends satisfies \<open>P\<close>.
\<close>

definition extends_with :: "(call \<Rightarrow> bool) \<Rightarrow> ('e, 'a) gprog \<Rightarrow> bool" where
  "extends_with P m \<longleftrightarrow>
     (\<forall>w. \<exists>new. calls (snd (m w)) = calls w @ new \<and> (\<forall>c \<in> set new. P (fst c)))"

text \<open>The calls of an agent action: anything but the memory processing and the status.\<close>

definition action_call :: "call \<Rightarrow> bool" where
  "action_call c \<longleftrightarrow> (case c of
      ExtractAndSaveLearnings _ \<Rightarrow> False
    | ClearShortTermHistory \<Rightarrow> False
    | UpdateTerminalStatus _ \<Rightarrow> False
    | _ \<Rightarrow> True)"

text \<open>The calls of the idle period and of the \<open>catch\<close> of the loop.\<close>

definition idle_call :: "call \<Rightarrow> bool" where
  "idle_call c \<longleftrightarrow> (case c of UpdateTerminalStatus _ \<Rightarrow> True | SetTimeout _ \<Rightarrow> True | _ \<Rightarrow> False)"

text \<open>The calls that the memory processing makes, read off its two awaited outcomes.\<close>

definition memory_calls :: "string \<Rightarrow> iter_env \<Rightarrow> (call \<times> status) list" where
  "memory_calls sessionId env =
     (case extractAndSaveLearnings_out env of
        Resolved _ \<Rightarrow> [(ExtractAndSaveLearnings sessionId, Fulfilled),
                       (ClearShortTermHistory, status_of (clearShortTermHistory_out env))]
      | p \<Rightarrow> [(ExtractAndSaveLearnings sessionId, status_of p)])"

text \<open>Both awaited promises of the memory processing settle (as far as they are reached).\<close>

definition memory_settles :: "iter_env \<Rightarrow> bool" where
  "memory_settles env \<longleftrightarrow>
     extractAndSaveLearnings_out env \<noteq> Pending \<and>
     (extractAndSaveLearnings_out env = Resolved () \<longrightarrow> clearShortTermHistory_out env \<noteq> Pending)"

text \<open>
  Every \<open>clearShortTermHistory\<close> in a trace comes directly after an
  \<open>extractAndSaveLearnings\<close> of the session that has resolved.
\<close>

definition cleared_only_after_success :: "string \<Rightarrow> (call \<times> status) list \<Rightarrow> bool" where
  "cleared_only_after_success sessionId cs \<longleftrightarrow>
     (\<forall>i < length cs. fst (cs ! i) = ClearShortTermHistory \<longrightarrow>
        0 < i \<and> cs ! (i - 1) = (ExtractAndSaveLearnings sessionId, Fulfilled))"

text \<open>The number of \<open>terminalAgent.run()\<close> calls in a trace.\<close>

definition run_calls :: "(call \<times> status) list \<Rightarrow> nat" where
  "run_calls cs = length (filter (\<lambda>c. fst c = AgentRun) cs)"

text \<open>A program that, when it resolves, has added \<open>n\<close> such calls to the trace.\<close>

definition adds_runs :: "nat \<Rightarrow> ('e, 'a) gprog \<Rightarrow> bool" where
  "adds_runs n m \<longleftrightarrow>
     (\<forall>w v. fst (m w) = Resolved v \<longrightarrow>
        run_calls (calls (snd (m w))) = run_calls (calls w) + n)"

section \<open>Concrete runs\<close>

text \<open>An action in which every collaborator resolves and the agent has no last message.\<close>

definition good_action :: action_env where
  "good_action =
     \<lparr>getShortTermHistory_out = Resolved [],
      run_out = Resolved \<lparr>fr_success = True, internal_thought = ''t'', plan = ''p'',
                          terminal_command = ''get-mentions'', fr_error = []\<rparr>,
      createTerminalEntry_out = Resolved (Some ''7''),
      executeCommand_out = Resolved ''ok'',
      updateTerminalResponse_out = Resolved (),
      getLastAgentMessage_out = None,
      storeAgentMessage_out = Resolved (),
      getCurrentTimestamp_out = ''t0'',
      storeOutputMessage_out = Resolved ()\<rparr>"

text \<open>The trace of that action.\<close>

definition good_calls :: "string \<Rightarrow> (call \<times> status) list" where
  "good_calls sid =
        [(GetShortTermHistory 6, Fulfilled), (AgentRun, Fulfilled),
         (CreateTerminalEntry sid ''t'' ''p'' ''get-mentions'', Fulfilled),
         (ExecuteCommand ''get-mentions'', Fulfilled),
         (UpdateTerminalResponse ''7'' ''ok'', Fulfilled),
         (StoreTerminalMessage \<lparr>role = ''user'', content = ''TERMINAL OUTPUT t0: ok''\<rparr> sid, Fulfilled),
         (SetTimeout 60000, Fulfilled)]"

text \<open>
  A pass of the loop with thirty such actions; the outcome of \<open>extractAndSaveLearnings\<close>
  is the parameter.
\<close>

definition session_env :: "unit outcome \<Rightarrow> iter_env" where
  "session_env p =
     \<lparr>actions = (\<lambda>_. good_action),
      extractAndSaveLearnings_out = p,
      clearShortTermHistory_out = Resolved (),
      idleMinutes = 45,
      updateTerminalStatus_idle_out = Resolved (),
      updateTerminalStatus_resume_out = Resolved ()\<rparr>"

definition w0 :: world where
  "w0 = \<lparr>calls = [], logs = []\<rparr>"



text \<open>A reply to a tweet that the bot has replied to before.\<close>

definition replied_env :: reply_env where
  "replied_env =
     \<lparr>hasAlreadyActioned_out = Resolved True,
      getTweet_out = Resolved (Some \<lparr>username = Some ''alice'', tweet_text = Some ''gm'',
                                     timeParsed = None\<rparr>),
      prepareMediaData_out = Resolved None,
      likeTweet_out = Resolved (),
      sendTweet_out = Resolved (),
      json_out = Resolved \<lparr>json_raw = ''{}'', json_rest_id = Some ''1002''\<rparr>,
      logTweet_out = Resolved True,
      findOrCreateUserFromTweet_out = Resolved (Some (Some ''u1'')),
      analyzeTweetContext_out = Resolved ''ctx'',
      logTwitterInteraction_out = Resolved (),
      now = ''2025-01-01T00:00:00.000Z''\<rparr>"



section \<open>The memory subsystem, from the specification\<close>

text \<open>
  Modelled from the spec: the Category Store, the Summarization Ladder and the Retrieval
  Engine (spec sections 3, 4.3, 4.4, 4.5). Their code (\<open>pipelines/extractLearnings\<close>,
  \<open>pipelines/loadMemories\<close> and what they call) is imported by the files at hand but is
  not among them, so the definitions of this section follow the words of the
  specification.
\<close>

text \<open>Modelled from the spec: the tier of a memory record (section 3).\<close>

datatype tier = Raw | Short | Mid | Long

text \<open>
  Modelled from the spec: the fixed taxonomy of categories (section 3); the user-specific
  category carries its user id.
\<close>

datatype category =
    WorldKnowledge
  | CryptoEcosystemKnowledge
  | SelfReflection
  | UserSpecific string
  | PrimaryPostContent
  | GeneratedMediaPrompts

text \<open>Modelled from the spec: the error taxonomy (section 7).\<close>

datatype memory_error = SourceUnavailable | ExtractionFailed | StoreUnavailable

text \<open>Modelled from the spec: MemoryRecord (section 3).\<close>

record memory_record =
  rid :: nat
  category :: category
  tier :: tier
  record_text :: string
  consolidatedFrom :: "nat set"
  createdAt :: nat
  active :: bool

text \<open>
  Modelled from the spec: the Category Store (section 4.4), append-mostly and addressed by
  id. The consumed mark is kept beside the records: a record is immutable once written
  except for \<open>active\<close>.
\<close>

record category_store =
  records :: "memory_record list"
  consumed :: "nat set"

text \<open>Modelled from the spec: the store before anything is written.\<close>

definition empty_store :: category_store where
  "empty_store = \<lparr>records = [], consumed = {}\<rparr>"

text \<open>Modelled from the spec: \<open>write(record)\<close>, a no-op on an id already written.\<close>

definition write_record :: "memory_record \<Rightarrow> category_store \<Rightarrow> category_store" where
  "write_record r st =
     (if rid r \<in> set (map rid (records st)) then st
      else st\<lparr>records := records st @ [r]\<rparr>)"

text \<open>Modelled from the spec: \<open>markConsumed(ids)\<close>.\<close>

definition markConsumed :: "nat set \<Rightarrow> category_store \<Rightarrow> category_store" where
  "markConsumed ids st = st\<lparr>consumed := consumed st \<union> ids\<rparr>"

text \<open>Modelled from the spec: \<open>setInactive(id)\<close>.\<close>

definition setInactive :: "nat \<Rightarrow> category_store \<Rightarrow> category_store" where
  "setInactive i st =
     st\<lparr>records := map (\<lambda>r. if rid r = i then r\<lparr>active := False\<rparr> else r) (records st)\<rparr>"

text \<open>Modelled from the spec: \<open>read(category, tier, activeOnly)\<close>, in the order written.\<close>

definition read :: "category \<Rightarrow> tier \<Rightarrow> bool \<Rightarrow> category_store \<Rightarrow> memory_record list" where
  "read c t activeOnly st =
     filter (\<lambda>r. category r = c \<and> tier r = t \<and> (if activeOnly then active r else True))
       (records st)"

text \<open>
  Modelled from the spec: the pending records of a category and tier, those that no
  consolidation has consumed yet.
\<close>

definition unconsumed :: "category \<Rightarrow> tier \<Rightarrow> category_store \<Rightarrow> memory_record list" where
  "unconsumed c t st = filter (\<lambda>r. rid r \<notin> consumed st) (read c t False st)"

text \<open>
  Modelled from the spec: oldest first (FIFO), by \<open>createdAt\<close>; records of one instant keep
  the order written.
\<close>

definition oldest_first :: "memory_record list \<Rightarrow> memory_record list" where
  "oldest_first rs = sort_key createdAt rs"

text \<open>
  Modelled from the spec: the id of the next record. The spec leaves the choice of ids open;
  here it is one more than every id written.
\<close>

definition fresh_id :: "category_store \<Rightarrow> nat" where
  "fresh_id st = Suc (fold max (map rid (records st)) 0)"

text \<open>Modelled from the spec: the threshold of the short tier (section 3).\<close>

definition shortTrigger :: nat where
  "shortTrigger = 5"

text \<open>Modelled from the spec: the threshold of the mid tier (section 3).\<close>

definition midTrigger :: nat where
  "midTrigger = 3"

text \<open>
  Modelled from the spec: what one consolidation cycle meets, the LLM collaborator (\<open>None\<close>
  is an error or a malformed result), whether the store can be reached, and the time.
\<close>

record cycle_env =
  llm :: "string list \<Rightarrow> string option"
  store_up :: bool
  now_ts :: nat

text \<open>
  Modelled from the spec: how a consolidation ends. It has produced a summary (its id), has
  found nothing to do, or was aborted.
\<close>

datatype cycle_outcome = Produced nat | Skipped | Aborted memory_error

text \<open>
  Modelled from the spec: the commit of a consolidation, applied whole. The summary is
  written with \<open>consolidatedFrom\<close> the ids of its inputs, the inputs are marked consumed,
  and the inputs that are summaries themselves are superseded (\<open>active = false\<close>); raw
  inputs stay active as readable history.
\<close>

definition commit_summary ::
  "tier \<Rightarrow> category \<Rightarrow> string \<Rightarrow> memory_record list \<Rightarrow> nat \<Rightarrow> category_store \<Rightarrow>
   category_store" where
  "commit_summary t c txt inputs ts st =
     fold (\<lambda>r. setInactive (rid r)) (filter (\<lambda>r. tier r \<noteq> Raw) inputs)
       (markConsumed (set (map rid inputs))
          (write_record \<lparr>rid = fresh_id st, category = c, tier = t, record_text = txt,
                  consolidatedFrom = set (map rid inputs), createdAt = ts,
                  active = True\<rparr> st))"

text \<open>
  Modelled from the spec: one consolidation over chosen inputs (section 4.3). It is a
  no-op when an input is already consumed (idempotence by the consumed flag), it aborts
  without a write when the store is unreachable or the LLM collaborator fails, and
  otherwise commits.
\<close>

definition consolidate ::
  "cycle_env \<Rightarrow> tier \<Rightarrow> category \<Rightarrow> memory_record list \<Rightarrow> category_store \<Rightarrow>
   category_store \<times> cycle_outcome" where
  "consolidate env t c inputs st =
     (if \<not> store_up env then (st, Aborted StoreUnavailable)
      else if inputs = [] \<or> list_ex (\<lambda>r. rid r \<in> consumed st) inputs then (st, Skipped)
      else case llm env (map record_text inputs) of
             None \<Rightarrow> (st, Aborted ExtractionFailed)
           | Some txt \<Rightarrow>
               (commit_summary t c txt inputs (now_ts env) st, Produced (fresh_id st)))"

text \<open>Modelled from the spec: the current active long summary of a category, if any.\<close>

definition current_long :: "category \<Rightarrow> category_store \<Rightarrow> memory_record option" where
  "current_long c st = (case read c Long True st of [] \<Rightarrow> None | p # _ \<Rightarrow> Some p)"

text \<open>
  Modelled from the spec: the long-summary merge. A new mid summary is merged with the
  current active long summary (if any) into a new long summary, whose
  \<open>consolidatedFrom\<close> is the previous long id (if any) and the mid id; the previous long
  record becomes inactive.
\<close>

definition merge_long ::
  "cycle_env \<Rightarrow> category \<Rightarrow> nat \<Rightarrow> category_store \<Rightarrow> category_store \<times> cycle_outcome" where
  "merge_long env c mid_id st =
     (case find (\<lambda>r. rid r = mid_id) (records st) of
        None \<Rightarrow> (st, Skipped)
      | Some m \<Rightarrow>
          consolidate env Long c
            ((case current_long c st of None \<Rightarrow> [] | Some p \<Rightarrow> [p]) @ [m]) st)"

text \<open>
  Modelled from the spec: a mid summary over the given short summaries, then the long merge
  that every new mid summary triggers.
\<close>

definition mid_and_long ::
  "cycle_env \<Rightarrow> category \<Rightarrow> memory_record list \<Rightarrow> category_store \<Rightarrow>
   category_store \<times> cycle_outcome" where
  "mid_and_long env c inputs st =
     (case consolidate env Mid c inputs st of
        (st1, Produced mid_id) \<Rightarrow> merge_long env c mid_id st1
      | r \<Rightarrow> r)"

text \<open>Modelled from the spec: five or more unconsumed raw records, the five oldest.\<close>

definition short_step ::
  "cycle_env \<Rightarrow> category \<Rightarrow> category_store \<Rightarrow> category_store \<times> cycle_outcome" where
  "short_step env c st =
     (let pending = oldest_first (unconsumed c Raw st)
      in if shortTrigger \<le> length pending
         then consolidate env Short c (take shortTrigger pending) st
         else (st, Skipped))"

text \<open>Modelled from the spec: three or more unconsumed short summaries.\<close>

definition mid_step ::
  "cycle_env \<Rightarrow> category \<Rightarrow> category_store \<Rightarrow> category_store \<times> cycle_outcome" where
  "mid_step env c st =
     (let pending = oldest_first (unconsumed c Short st)
      in if midTrigger \<le> length pending
         then mid_and_long env c (take midTrigger pending) st
         else (st, Skipped))"

text \<open>
  Modelled from the spec: the threshold steps of one category; a step that aborts ends the
  cycle.
\<close>

definition ladder ::
  "cycle_env \<Rightarrow> category \<Rightarrow> category_store \<Rightarrow> category_store \<times> cycle_outcome" where
  "ladder env c st =
     (case short_step env c st of
        (st1, Aborted e) \<Rightarrow> (st1, Aborted e)
      | (st1, _) \<Rightarrow> mid_step env c st1)"

text \<open>
  Modelled from the spec: end-of-cycle force-elevation. A category that has 1 to 4
  pending raw records, or 1 to 2 pending short summaries, at the session boundary is
  consolidated whatever the threshold: the raw records into one short summary, the short
  summaries into one mid summary (and with it the long merge).
\<close>

definition force_elevation ::
  "cycle_env \<Rightarrow> category \<Rightarrow> category_store \<Rightarrow> category_store \<times> cycle_outcome" where
  "force_elevation env c st =
     (let raws = oldest_first (unconsumed c Raw st);
          shorts = oldest_first (unconsumed c Short st)
      in case (if 1 \<le> length raws \<and> length raws < shortTrigger
               then consolidate env Short c raws st else (st, Skipped)) of
           (st1, Aborted e) \<Rightarrow> (st1, Aborted e)
         | (st1, _) \<Rightarrow>
             if 1 \<le> length shorts \<and> length shorts < midTrigger
             then mid_and_long env c shorts st1 else (st1, Skipped))"

text \<open>Modelled from the spec: the ladder of a session boundary, force-elevation included.\<close>

definition session_boundary ::
  "cycle_env \<Rightarrow> category \<Rightarrow> category_store \<Rightarrow> category_store \<times> cycle_outcome" where
  "session_boundary env c st =
     (case ladder env c st of
        (st1, Aborted e) \<Rightarrow> (st1, Aborted e)
      | (st1, _) \<Rightarrow> force_elevation env c st1)"

text \<open>
  Modelled from the spec: the Extractor writes a validated candidate as a raw record; a
  candidate with empty text is discarded.
\<close>

definition extract_write :: "category \<Rightarrow> string \<Rightarrow> nat \<Rightarrow> category_store \<Rightarrow> category_store" where
  "extract_write c txt ts st =
     (if txt = [] then st
      else write_record \<lparr>rid = fresh_id st, category = c, tier = Raw, record_text = txt,
                  consolidatedFrom = {}, createdAt = ts, active = True\<rparr> st)"

text \<open>
  Modelled from the spec: the operations of the subsystem that write to the store. The
  24-hour sweep runs the pipeline of a session boundary over every category of the store.
\<close>

datatype event =
    Extracted category string nat
  | LadderCycle cycle_env category
  | ForceElevation cycle_env category
  | SessionBoundary cycle_env category
  | MeditationSweep cycle_env

text \<open>Modelled from the spec: the store after one operation.\<close>

fun apply_event :: "category_store \<Rightarrow> event \<Rightarrow> category_store" where
  "apply_event st (Extracted c txt ts) = extract_write c txt ts st"
| "apply_event st (LadderCycle env c) = fst (ladder env c st)"
| "apply_event st (ForceElevation env c) = fst (force_elevation env c st)"
| "apply_event st (SessionBoundary env c) = fst (session_boundary env c st)"
| "apply_event st (MeditationSweep env) =
     fold (\<lambda>c s. fst (session_boundary env c s)) (remdups (map category (records st))) st"

text \<open>Modelled from the spec: the store after a sequence of operations.\<close>

definition run :: "event list \<Rightarrow> category_store \<Rightarrow> category_store" where
  "run evs st = foldl apply_event st evs"

text \<open>What \<open>setInactive\<close> does to one record, for a set of ids.\<close>

definition deactivate :: "nat set \<Rightarrow> memory_record \<Rightarrow> memory_record" where
  "deactivate D r = (if rid r \<in> D then r\<lparr>active := False\<rparr> else r)"

text \<open>The ids of the inputs that are summaries themselves: the ones a commit supersedes.\<close>

definition superseded :: "memory_record list \<Rightarrow> nat set" where
  "superseded inputs = rid ` set (filter (\<lambda>r. tier r \<noteq> Raw) inputs)"


text \<open>Modelled from the spec: at most one active long-tier record per category (section 3).\<close>

definition one_active_long :: "category_store \<Rightarrow> bool" where
  "one_active_long st \<longleftrightarrow> (\<forall>c. length (read c Long True st) \<le> 1)"

text \<open>A cycle in which the store is reachable and the LLM collaborator answers with the
  concatenation of its inputs.\<close>

definition echo_env :: "nat \<Rightarrow> cycle_env" where
  "echo_env t = \<lparr>llm = (\<lambda>xs. Some (concat xs)), store_up = True, now_ts = t\<rparr>"

text \<open>A store with two pending raw records of one category.\<close>

definition two_raw :: category_store where
  "two_raw =
     \<lparr>records =
        [\<lparr>rid = 1, category = WorldKnowledge, tier = Raw, record_text = ''a'',
          consolidatedFrom = {}, createdAt = 1, active = True\<rparr>,
         \<lparr>rid = 2, category = WorldKnowledge, tier = Raw, record_text = ''b'',
          consolidatedFrom = {}, createdAt = 2, active = True\<rparr>],
      consumed = {}\<rparr>"

text \<open>A store in which a second mid summary (id 7) has just been committed and the long summary of
  the first (id 4) is still active.\<close>

definition merge_ready :: category_store where
  "merge_ready =
     \<lparr>records =
        [\<lparr>rid = 1, category = WorldKnowledge, tier = Raw, record_text = ''a'',
          consolidatedFrom = {}, createdAt = 1, active = True\<rparr>,
         \<lparr>rid = 2, category = WorldKnowledge, tier = Short, record_text = ''a'',
          consolidatedFrom = {1}, createdAt = 2, active = False\<rparr>,
         \<lparr>rid = 3, category = WorldKnowledge, tier = Mid, record_text = ''a'',
          consolidatedFrom = {2}, createdAt = 3, active = False\<rparr>,
         \<lparr>rid = 4, category = WorldKnowledge, tier = Long, record_text = ''a'',
          consolidatedFrom = {3}, createdAt = 3, active = True\<rparr>,
         \<lparr>rid = 5, category = WorldKnowledge, tier = Raw, record_text = ''b'',
          consolidatedFrom = {}, createdAt = 4, active = True\<rparr>,
         \<lparr>rid = 6, category = WorldKnowledge, tier = Short, record_text = ''b'',
          consolidatedFrom = {5}, createdAt = 5, active = False\<rparr>,
         \<lparr>rid = 7, category = WorldKnowledge, tier = Mid, record_text = ''b'',
          consolidatedFrom = {6}, createdAt = 6, active = True\<rparr>],
      consumed = {1, 2, 3, 5, 6}\<rparr>"

text \<open>Modelled from the spec: what the search collaborator answers for one category within the
  per-category timeout (section 4.5).\<close>

datatype 'a search_result = Ranked 'a | TimedOut | SearchError string

text \<open>Modelled from the spec: the categories one retrieval queries, the user-specific ones for
  the supplied user ids.\<close>

definition retrieval_categories :: "string list \<Rightarrow> category list" where
  "retrieval_categories userIds =
     [WorldKnowledge, CryptoEcosystemKnowledge, SelfReflection] @ map UserSpecific userIds
       @ [PrimaryPostContent, GeneratedMediaPrompts]"

text \<open>Modelled from the spec: the result of a retrieval, with the \<open>RetrievalDegraded\<close> marker and
  what it logged.\<close>

record retrieval =
  memories :: "category \<rightharpoonup> string list"
  degraded :: bool
  retrieval_log :: "string list"

text \<open>Modelled from the spec: the entry of one category, capped at \<open>K\<close>; a timeout or an error
  gives none.\<close>

definition answered ::
  "(category \<Rightarrow> string list search_result) \<Rightarrow> nat \<Rightarrow> category \<Rightarrow> (category \<times> string list) option"
  where
  "answered ask K c = (case ask c of Ranked rs \<Rightarrow> Some (c, take K rs) | _ \<Rightarrow> None)"

text \<open>Modelled from the spec: \<open>retrieve(contextText, userIds)\<close> (section 4.5). One query per
  category; a category that times out or fails is left out of the map; the call itself
  returns a result in every case.\<close>

definition retrieve ::
  "(string \<Rightarrow> category \<Rightarrow> nat \<Rightarrow> string list search_result) \<Rightarrow> nat \<Rightarrow> string \<Rightarrow>
   string list \<Rightarrow> memory_error + retrieval" where
  "retrieve query K contextText userIds =
     (let cats = retrieval_categories userIds;
          hits = List.map_filter (answered (\<lambda>c. query contextText c K) K) cats
      in Inr \<lparr>memories = map_of hits,
              degraded = (length hits < length cats),
              retrieval_log =
                (if hits = [] then [''retrieval: every category failed''] else [])\<rparr>)"

text \<open>A search collaborator that times out on self-reflection and fails for one user.\<close>

definition flaky_search :: "string \<Rightarrow> category \<Rightarrow> nat \<Rightarrow> string list search_result" where
  "flaky_search q c k =
     (case c of
        SelfReflection \<Rightarrow> TimedOut
      | WorldKnowledge \<Rightarrow> Ranked [''w1'', ''w2'', ''w3'']
      | UserSpecific u \<Rightarrow> (if u = ''bob'' then SearchError ''boom'' else Ranked [u])
      | _ \<Rightarrow> Ranked [])"

text \<open>Two raw records, each force-elevated to a short, a mid and a long summary in turn.\<close>

definition two_merges :: "event list" where
  "two_merges =
     [Extracted WorldKnowledge ''a'' 1, ForceElevation (echo_env 2) WorldKnowledge,
      ForceElevation (echo_env 3) WorldKnowledge, Extracted WorldKnowledge ''b'' 4,
      ForceElevation (echo_env 5) WorldKnowledge, ForceElevation (echo_env 6) WorldKnowledge]"





section \<open>Trace lemmas\<close>

lemma extends_with_ret: "extends_with P (ret v)"
  by (simp add: extends_with_def ret_def)

lemma extends_with_throw: "extends_with P (throw e)"
  by (simp add: extends_with_def throw_def)

lemma extends_with_log_line: "extends_with P k \<Longrightarrow> extends_with P (log_line l k)"
  unfolding extends_with_def log_line_def
proof
  fix w
  assume a: "\<forall>w. \<exists>new. calls (snd (k w)) = calls w @ new \<and> (\<forall>c \<in> set new. P (fst c))"
  from a[rule_format, of "w\<lparr>logs := logs w @ [l]\<rparr>"]
  show "\<exists>new. calls (snd (k (w\<lparr>logs := logs w @ [l]\<rparr>))) = calls w @ new \<and> (\<forall>c \<in> set new. P (fst c))"
    by simp
qed

lemma extends_with_await:
  assumes "P c" and "\<And>v. extends_with P (k v)"
  shows "extends_with P (await c p k)"
  unfolding extends_with_def
proof
  fix w :: world
  let ?w' = "w\<lparr>calls := calls w @ [(c, status_of p)]\<rparr>"
  show "\<exists>new. calls (snd (await c p k w)) = calls w @ new \<and> (\<forall>c \<in> set new. P (fst c))"
  proof (cases p)
    case (Resolved v)
    from assms(2)[of v] obtain new where
      "calls (snd (k v ?w')) = calls ?w' @ new" "\<forall>c \<in> set new. P (fst c)"
      unfolding extends_with_def by blast
    then have "calls (snd (await c p k w)) = calls w @ ((c, status_of p) # new)
        \<and> (\<forall>c \<in> set ((c, status_of p) # new). P (fst c))"
      using Resolved assms(1) by (simp add: await_def)
    then show ?thesis by blast
  next
    case (Rejected e)
    then have "calls (snd (await c p k w)) = calls w @ [(c, status_of p)]
        \<and> (\<forall>c \<in> set [(c, status_of p)]. P (fst c))"
      using assms(1) by (simp add: await_def)
    then show ?thesis by blast
  next
    case Pending
    then have "calls (snd (await c p k w)) = calls w @ [(c, status_of p)]
        \<and> (\<forall>c \<in> set [(c, status_of p)]. P (fst c))"
      using assms(1) by (simp add: await_def)
    then show ?thesis by blast
  qed
qed

lemma extends_with_invoke:
  assumes "P c" and "extends_with P k"
  shows "extends_with P (invoke c k)"
  unfolding extends_with_def
proof
  fix w :: world
  let ?w' = "w\<lparr>calls := calls w @ [(c, Fulfilled)]\<rparr>"
  from assms(2) obtain new where
    "calls (snd (k ?w')) = calls ?w' @ new" "\<forall>c \<in> set new. P (fst c)"
    unfolding extends_with_def by blast
  then have "calls (snd (invoke c k w)) = calls w @ ((c, Fulfilled) # new)
      \<and> (\<forall>c \<in> set ((c, Fulfilled) # new). P (fst c))"
    using assms(1) by (simp add: invoke_def)
  then show "\<exists>new. calls (snd (invoke c k w)) = calls w @ new \<and> (\<forall>c \<in> set new. P (fst c))"
    by blast
qed

lemma extends_with_bind:
  assumes "extends_with P m" and "\<And>v. extends_with P (k v)"
  shows "extends_with P (bind m k)"
  unfolding extends_with_def
proof
  fix w
  obtain r w' where mw: "m w = (r, w')" by (cases "m w")
  from assms(1) mw obtain n1 where n1: "calls w' = calls w @ n1" "\<forall>c \<in> set n1. P (fst c)"
    unfolding extends_with_def by (metis snd_conv)
  show "\<exists>new. calls (snd (bind m k w)) = calls w @ new \<and> (\<forall>c \<in> set new. P (fst c))"
  proof (cases r)
    case (Resolved v)
    from assms(2)[of v] obtain n2 where
      n2: "calls (snd (k v w')) = calls w' @ n2" "\<forall>c \<in> set n2. P (fst c)"
      unfolding extends_with_def by blast
    have "calls (snd (bind m k w)) = calls w @ (n1 @ n2) \<and> (\<forall>c \<in> set (n1 @ n2). P (fst c))"
      using Resolved mw n1 n2 by (auto simp: bind_def)
    then show ?thesis by blast
  next
    case (Rejected e)
    then show ?thesis using mw n1 by (auto simp: bind_def)
  next
    case Pending
    then show ?thesis using mw n1 by (auto simp: bind_def)
  qed
qed

lemma extends_with_try_catch:
  assumes "extends_with P body" and "\<And>e. extends_with P (handler e)"
  shows "extends_with P (try_catch body handler)"
  unfolding extends_with_def
proof
  fix w
  obtain r w' where mw: "body w = (r, w')" by (cases "body w")
  from assms(1) mw obtain n1 where n1: "calls w' = calls w @ n1" "\<forall>c \<in> set n1. P (fst c)"
    unfolding extends_with_def by (metis snd_conv)
  show "\<exists>new. calls (snd (try_catch body handler w)) = calls w @ new \<and> (\<forall>c \<in> set new. P (fst c))"
  proof (cases r)
    case (Rejected e)
    from assms(2)[of e] obtain n2 where
      n2: "calls (snd (handler e w')) = calls w' @ n2" "\<forall>c \<in> set n2. P (fst c)"
      unfolding extends_with_def by blast
    have "calls (snd (try_catch body handler w)) = calls w @ (n1 @ n2)
        \<and> (\<forall>c \<in> set (n1 @ n2). P (fst c))"
      using Rejected mw n1 n2 by (auto simp: try_catch_def)
    then show ?thesis by blast
  next
    case (Resolved v)
    then show ?thesis using mw n1 by (auto simp: try_catch_def)
  next
    case Pending
    then show ?thesis using mw n1 by (auto simp: try_catch_def)
  qed
qed

lemmas extends_with_intros =
  extends_with_ret extends_with_throw extends_with_log_line extends_with_await
  extends_with_invoke extends_with_bind extends_with_try_catch

lemma extends_with_load_history: "extends_with action_call (load_history a)"
  unfolding load_history_def
  by (intro extends_with_intros allI impI) (simp_all add: action_call_def extends_with_intros)

lemma extends_with_agent_action: "extends_with action_call (agent_action sid a)"
  unfolding agent_action_def Let_def
  apply (intro extends_with_bind extends_with_load_history extends_with_await)
  apply (simp_all add: action_call_def extends_with_intros split: option.splits)
  done

lemma active_period_calls:
  "\<exists>new. calls (snd (active_period sid acts n w)) = calls w @ new
         \<and> (\<forall>c \<in> set new. action_call (fst c))"
proof (induction sid acts n w rule: active_period.induct)
  case (1 sid acts n w)
  show ?case
  proof (cases "n < MAX_ACTIONS")
    case False
    then show ?thesis by (simp add: active_period.simps)
  next
    case True
    obtain r w' where aw: "agent_action sid (acts n) w = (r, w')"
      by (cases "agent_action sid (acts n) w")
    from extends_with_agent_action[of sid "acts n"] aw
    obtain n1 where n1: "calls w' = calls w @ n1" "\<forall>c \<in> set n1. action_call (fst c)"
      unfolding extends_with_def by (metis snd_conv)
    show ?thesis
    proof (cases r)
      case (Resolved v)
      from "1.IH"[OF True aw[symmetric] Resolved] obtain n2 where
        n2: "calls (snd (active_period sid acts (Suc n) w')) = calls w' @ n2"
            "\<forall>c \<in> set n2. action_call (fst c)" by blast
      have "calls (snd (active_period sid acts n w)) = calls w @ (n1 @ n2)
          \<and> (\<forall>c \<in> set (n1 @ n2). action_call (fst c))"
        using True aw Resolved n1 n2 by (auto simp: active_period.simps[of sid acts n w])
      then show ?thesis by blast
    next
      case (Rejected e)
      then show ?thesis using True aw n1 by (auto simp: active_period.simps[of sid acts n w])
    next
      case Pending
      then show ?thesis using True aw n1 by (auto simp: active_period.simps[of sid acts n w])
    qed
  qed
qed

lemma memory_processing_calls:
  "calls (snd (memory_processing sid env w)) = calls w @ memory_calls sid env"
  by (cases "extractAndSaveLearnings_out env"; cases "clearShortTermHistory_out env")
     (simp_all add: memory_processing_def memory_calls_def try_catch_def log_line_def await_def
      ret_def)

lemma memory_processing_fst:
  "fst (memory_processing sid env w) = (if memory_settles env then Resolved () else Pending)"
  by (cases "extractAndSaveLearnings_out env"; cases "clearShortTermHistory_out env")
     (simp_all add: memory_processing_def memory_settles_def try_catch_def log_line_def await_def
      ret_def)

lemma extends_with_idle_period: "extends_with idle_call (idle_period env)"
  unfolding idle_period_def
  by (intro extends_with_intros allI impI) (simp_all add: idle_call_def)

lemma extends_withD:
  "extends_with P m \<Longrightarrow> \<exists>new. calls (snd (m w)) = calls w @ new \<and> (\<forall>c \<in> set new. P (fst c))"
  by (simp add: extends_with_def)

lemma loop_iteration_calls:
  "\<exists>A I. (\<forall>c \<in> set A. action_call (fst c)) \<and> (\<forall>c \<in> set I. idle_call (fst c))
     \<and> (calls (snd (loop_iteration sid env w)) = calls w @ A @ I
           \<and> (\<forall>c \<in> set I. \<exists>n. fst c = SetTimeout n)
         \<or> calls (snd (loop_iteration sid env w)) = calls w @ A @ memory_calls sid env @ I
           \<and> (memory_settles env \<or> I = []))"
proof -
  obtain r1 w1 where ap: "active_period sid (actions env) 0 w = (r1, w1)"
    by (cases "active_period sid (actions env) 0 w")
  from active_period_calls[of sid "actions env" 0 w] ap
  obtain A where A: "calls w1 = calls w @ A" "\<forall>c \<in> set A. action_call (fst c)"
    by auto
  let ?H = "\<lambda>e. log_line (''Error in AI system loop: '' @ e)
              (await (SetTimeout 5000) (Resolved ()) (\<lambda>_. ret ()))"
  have H: "calls (snd (?H e v)) = calls v @ [(SetTimeout 5000, Fulfilled)]" for e and v :: world
    by (simp add: log_line_def await_def ret_def)
  show ?thesis
  proof (cases r1)
    case (Rejected e)
    then have "calls (snd (loop_iteration sid env w)) = calls w @ A @ [(SetTimeout 5000, Fulfilled)]"
      using ap A H[of e w1] by (simp add: loop_iteration_def try_catch_def bind_def)
    then show ?thesis using A(2)
      by (intro exI[of _ A] exI[of _ "[(SetTimeout 5000, Fulfilled)]"]) (simp add: idle_call_def)
  next
    case Pending
    then have "calls (snd (loop_iteration sid env w)) = calls w @ A @ []"
      using ap A by (simp add: loop_iteration_def try_catch_def bind_def)
    then show ?thesis using A(2)
      by (intro exI[of _ A] exI[of _ "[]"]) simp
  next
    case (Resolved u)
    obtain r2 w2 where mp: "memory_processing sid env w1 = (r2, w2)"
      by (cases "memory_processing sid env w1")
    have w2: "calls w2 = calls w @ A @ memory_calls sid env"
      using memory_processing_calls[of sid env w1] mp A by simp
    have r2: "r2 = (if memory_settles env then Resolved () else Pending)"
      using memory_processing_fst[of sid env w1] mp by simp
    show ?thesis
    proof (cases "memory_settles env")
      case False
      then have "calls (snd (loop_iteration sid env w)) = calls w @ A @ memory_calls sid env @ []"
        using ap Resolved mp w2 r2 by (simp add: loop_iteration_def try_catch_def bind_def)
      then show ?thesis using A(2) False
        by (intro exI[of _ A] exI[of _ "[]"]) simp
    next
      case True
      obtain r3 w3 where ip: "idle_period env w2 = (r3, w3)"
        by (cases "idle_period env w2")
      from extends_withD[OF extends_with_idle_period, of env w2] ip
      obtain I where I: "calls w3 = calls w2 @ I" "\<forall>c \<in> set I. idle_call (fst c)"
        by auto
      show ?thesis
      proof (cases r3)
        case (Rejected e)
        then have "calls (snd (loop_iteration sid env w))
            = calls w @ A @ memory_calls sid env @ (I @ [(SetTimeout 5000, Fulfilled)])"
          using ap Resolved mp w2 r2 True ip I H[of e w3]
          by (simp add: loop_iteration_def try_catch_def bind_def)
        then show ?thesis using A(2) I(2) True
          by (intro exI[of _ A] exI[of _ "I @ [(SetTimeout 5000, Fulfilled)]"])
             (simp add: idle_call_def)
      next
        case (Resolved v)
        then have "calls (snd (loop_iteration sid env w)) = calls w @ A @ memory_calls sid env @ I"
          using ap \<open>r1 = Resolved u\<close> mp w2 r2 True ip I
          by (simp add: loop_iteration_def try_catch_def bind_def)
        then show ?thesis using A(2) I(2) True
          by (intro exI[of _ A] exI[of _ I]) simp
      next
        case Pending
        then have "calls (snd (loop_iteration sid env w)) = calls w @ A @ memory_calls sid env @ I"
          using ap \<open>r1 = Resolved u\<close> mp w2 r2 True ip I
          by (simp add: loop_iteration_def try_catch_def bind_def)
        then show ?thesis using A(2) I(2) True
          by (intro exI[of _ A] exI[of _ I]) simp
      qed
    qed
  qed
qed



lemma good_agent_action:
  "agent_action sid good_action w = (Resolved (), w\<lparr>calls := calls w @ good_calls sid\<rparr>)"
  by (simp add: agent_action_def good_action_def bind_def load_history_def try_catch_def
      await_def ret_def log_line_def throw_def good_calls_def)

lemma good_active_period:
  "active_period sid (\<lambda>_. good_action) n w =
     (Resolved (), w\<lparr>calls := calls w @ concat (replicate (MAX_ACTIONS - n) (good_calls sid))\<rparr>)"
proof (induction "MAX_ACTIONS - n" arbitrary: n w)
  case 0
  then show ?case by (simp add: active_period.simps[of _ _ n])
next
  case (Suc k)
  then have lt: "n < MAX_ACTIONS" and k: "k = MAX_ACTIONS - Suc n" by simp_all
  have r: "MAX_ACTIONS - n = Suc (MAX_ACTIONS - Suc n)" using lt by simp
  show ?case
    using lt Suc.hyps(1)[OF k]
    by (simp add: active_period.simps[of _ _ n] good_agent_action r)
qed

lemma good_active_period_0:
  "active_period sid (\<lambda>_. good_action) 0 w =
     (Resolved (), w\<lparr>calls := calls w @ concat (replicate 30 (good_calls sid))\<rparr>)"
  using good_active_period[of sid 0 w] by (simp add: MAX_ACTIONS_def)



lemma fine_iteration:
  "loop_iteration sid (session_env (Resolved ())) w =
     (Resolved (), w\<lparr>calls := calls w @ concat (replicate 30 (good_calls sid))
                      @ [(ExtractAndSaveLearnings sid, Fulfilled),
                         (ClearShortTermHistory, Fulfilled),
                         (UpdateTerminalStatus False, Fulfilled),
                         (SetTimeout 2700000, Fulfilled),
                         (UpdateTerminalStatus True, Fulfilled)],
                 logs := logs w @ [''Initiating memory processing...'',
                                   ''Memory processing complete, short-term history cleared'',
                                   ''Entering idle mode for 45 minutes'',
                                   ''Resuming active mode'']\<rparr>)"
  by (simp add: loop_iteration_def try_catch_def bind_def good_active_period_0
      memory_processing_def idle_period_def log_line_def await_def ret_def session_env_def
      show_nat.simps[of 45] show_nat.simps[of 4] digit_char_def)

lemma new_calls_append: "calls w' = calls w @ new \<Longrightarrow> new_calls w w' = new"
  by (simp add: new_calls_def)

lemma cleared_none:
  "\<forall>c \<in> set cs. fst c \<noteq> ClearShortTermHistory \<Longrightarrow> cleared_only_after_success sid cs"
  by (auto simp: cleared_only_after_success_def)

lemma cleared_append:
  assumes "cleared_only_after_success sid xs" and "cleared_only_after_success sid ys"
  shows "cleared_only_after_success sid (xs @ ys)"
  unfolding cleared_only_after_success_def
proof (intro allI impI)
  fix i
  assume i: "i < length (xs @ ys)" and c: "fst ((xs @ ys) ! i) = ClearShortTermHistory"
  show "0 < i \<and> (xs @ ys) ! (i - 1) = (ExtractAndSaveLearnings sid, Fulfilled)"
  proof (cases "i < length xs")
    case True
    with c have ci: "fst (xs ! i) = ClearShortTermHistory" by (simp add: nth_append)
    from assms(1)[unfolded cleared_only_after_success_def, rule_format, OF True ci]
    have pi: "0 < i" and ei: "xs ! (i - 1) = (ExtractAndSaveLearnings sid, Fulfilled)"
      by blast+
    from True have "i - 1 < length xs" by simp
    with pi ei show ?thesis by (simp add: nth_append)
  next
    case False
    let ?j = "i - length xs"
    from False i have j: "?j < length ys" by simp
    from False c have cj: "fst (ys ! ?j) = ClearShortTermHistory" by (simp add: nth_append)
    from assms(2)[unfolded cleared_only_after_success_def, rule_format, OF j cj]
    have pj: "0 < ?j" and ej: "ys ! (?j - 1) = (ExtractAndSaveLearnings sid, Fulfilled)"
      by blast+
    from pj have "\<not> i - 1 < length xs" and "i - 1 - length xs = ?j - 1" and "0 < i"
      by linarith+
    with ej show ?thesis by (simp add: nth_append)
  qed
qed

lemma cleared_memory_calls: "cleared_only_after_success sid (memory_calls sid env)"
  by (cases "extractAndSaveLearnings_out env")
     (auto simp: cleared_only_after_success_def memory_calls_def less_Suc_eq)

lemma action_call_not_clear: "action_call c \<Longrightarrow> c \<noteq> ClearShortTermHistory"
  by (auto simp: action_call_def)

lemma idle_call_not_clear: "idle_call c \<Longrightarrow> c \<noteq> ClearShortTermHistory"
  by (auto simp: idle_call_def)

lemma loop_iteration_cleared:
  "\<exists>new. calls (snd (loop_iteration sid env w)) = calls w @ new
         \<and> cleared_only_after_success sid new"
proof -
  from loop_iteration_calls[of sid env w] obtain A I where
    A: "\<forall>c \<in> set A. action_call (fst c)" and I: "\<forall>c \<in> set I. idle_call (fst c)" and
    d: "calls (snd (loop_iteration sid env w)) = calls w @ A @ I
        \<or> calls (snd (loop_iteration sid env w)) = calls w @ A @ memory_calls sid env @ I"
    by blast
  have cA: "cleared_only_after_success sid A"
    using A by (intro cleared_none) (auto dest: action_call_not_clear)
  have cI: "cleared_only_after_success sid I"
    using I by (intro cleared_none) (auto dest: idle_call_not_clear)
  from d show ?thesis
  proof
    assume "calls (snd (loop_iteration sid env w)) = calls w @ A @ I"
    then show ?thesis using cleared_append[OF cA cI] by blast
  next
    assume "calls (snd (loop_iteration sid env w)) = calls w @ A @ memory_calls sid env @ I"
    then show ?thesis
      using cleared_append[OF cA cleared_append[OF cleared_memory_calls cI]] by blast
  qed
qed

lemma main_loop_cleared:
  "\<exists>new. calls (snd (main_loop n sid envs i w)) = calls w @ new
         \<and> cleared_only_after_success sid new"
proof (induction n arbitrary: i w)
  case 0
  show ?case by (simp add: cleared_only_after_success_def)
next
  case (Suc n)
  obtain r w' where li: "loop_iteration sid (envs i) w = (r, w')"
    by (cases "loop_iteration sid (envs i) w")
  from loop_iteration_cleared[of sid "envs i" w] li obtain n1 where
    n1: "calls w' = calls w @ n1" "cleared_only_after_success sid n1" by auto
  show ?case
  proof (cases r)
    case (Resolved v)
    from Suc.IH[of "Suc i" w'] obtain n2 where
      n2: "calls (snd (main_loop n sid envs (Suc i) w')) = calls w' @ n2"
          "cleared_only_after_success sid n2" by blast
    have "calls (snd (main_loop (Suc n) sid envs i w)) = calls w @ (n1 @ n2)"
      using li Resolved n1 n2 by simp
    then show ?thesis using cleared_append[OF n1(2) n2(2)] by blast
  next
    case (Rejected e)
    then show ?thesis using li n1 by auto
  next
    case Pending
    then show ?thesis using li n1 by auto
  qed
qed

lemma loop_iteration_no_clear:
  assumes "extractAndSaveLearnings_out env \<noteq> Resolved ()"
  shows "\<forall>c \<in> set (new_calls w (snd (loop_iteration sid env w))). fst c \<noteq> ClearShortTermHistory"
proof -
  from loop_iteration_calls[of sid env w] obtain A I where
    A: "\<forall>c \<in> set A. action_call (fst c)" and I: "\<forall>c \<in> set I. idle_call (fst c)" and
    d: "calls (snd (loop_iteration sid env w)) = calls w @ A @ I
        \<or> calls (snd (loop_iteration sid env w)) = calls w @ A @ memory_calls sid env @ I"
    by blast
  have M: "\<forall>c \<in> set (memory_calls sid env). fst c \<noteq> ClearShortTermHistory"
    using assms by (cases "extractAndSaveLearnings_out env") (simp_all add: memory_calls_def)
  from d show ?thesis
  proof
    assume "calls (snd (loop_iteration sid env w)) = calls w @ A @ I"
    then have "new_calls w (snd (loop_iteration sid env w)) = A @ I"
      by (rule new_calls_append)
    then show ?thesis using A I by (auto dest: action_call_not_clear idle_call_not_clear)
  next
    assume "calls (snd (loop_iteration sid env w)) = calls w @ A @ memory_calls sid env @ I"
    then have "new_calls w (snd (loop_iteration sid env w)) = A @ memory_calls sid env @ I"
      by (rule new_calls_append)
    then show ?thesis using A I M by (auto dest: action_call_not_clear idle_call_not_clear)
  qed
qed

lemma session_env_sel:
  "extractAndSaveLearnings_out (session_env p) = p"
  "clearShortTermHistory_out (session_env p) = Resolved ()"
  "actions (session_env p) = (\<lambda>_. good_action)"
  by (simp_all add: session_env_def)

lemma good_period_calls:
  "calls (snd (active_period sid (\<lambda>_. good_action) 0 w))
     = calls w @ concat (replicate 30 (good_calls sid))"
  by (simp add: good_active_period_0)






lemma adds_runs_log_line: "adds_runs n k \<Longrightarrow> adds_runs n (log_line l k)"
  by (simp add: adds_runs_def log_line_def)















section \<open>Properties of the memory subsystem as specified\<close>

lemma deactivate_sel [simp]:
  "rid (deactivate D r) = rid r"
  "category (deactivate D r) = category r"
  "tier (deactivate D r) = tier r"
  "record_text (deactivate D r) = record_text r"
  "consolidatedFrom (deactivate D r) = consolidatedFrom r"
  "createdAt (deactivate D r) = createdAt r"
  by (simp_all add: deactivate_def)

lemma deactivate_active: "active (deactivate D r) \<longleftrightarrow> active r \<and> rid r \<notin> D"
  by (simp add: deactivate_def)

lemma deactivate_empty [simp]: "deactivate {} = (\<lambda>r. r)"
  by (rule ext) (simp add: deactivate_def)


lemma fold_max_upper: "a \<le> fold max xs a \<and> (\<forall>x \<in> set xs. x \<le> fold max xs (a::nat))"
proof (induction xs arbitrary: a)
  case Nil
  show ?case by simp
next
  case (Cons y ys)
  from Cons[of "max y a"] show ?case by auto
qed

lemma fresh_id_above: "r \<in> set (records st) \<Longrightarrow> rid r < fresh_id st"
  using fold_max_upper[of 0 "map rid (records st)"] by (auto simp: fresh_id_def less_Suc_eq_le)

lemma fresh_id_new: "fresh_id st \<notin> set (map rid (records st))"
proof
  assume "fresh_id st \<in> set (map rid (records st))"
  then obtain r where "r \<in> set (records st)" and "rid r = fresh_id st" by auto
  with fresh_id_above[of r st] show False by simp
qed

lemma fold_setInactive:
  "fold (\<lambda>r. setInactive (rid r)) rs st =
     st\<lparr>records := map (deactivate (rid ` set rs)) (records st)\<rparr>"
proof (induction rs arbitrary: st)
  case Nil
  show ?case by simp
next
  case (Cons r rs)
  have m: "map (deactivate (rid ` set rs)) (map (\<lambda>x. if rid x = rid r then x\<lparr>active := False\<rparr> else x) xs)
      = map (deactivate (rid ` set (r # rs))) xs" for xs
    by (induction xs) (auto simp: deactivate_def)
  have "fold (\<lambda>r. setInactive (rid r)) (r # rs) st
      = fold (\<lambda>r. setInactive (rid r)) rs (setInactive (rid r) st)" by simp
  also have "\<dots> = (setInactive (rid r) st)
      \<lparr>records := map (deactivate (rid ` set rs)) (records (setInactive (rid r) st))\<rparr>"
    by (rule Cons)
  also have "\<dots> = st\<lparr>records := map (deactivate (rid ` set (r # rs))) (records st)\<rparr>"
    using m[of "records st"] by (simp add: setInactive_def)
  finally show ?case .
qed

lemma records_commit_summary:
  "records (commit_summary t c txt inputs ts st) =
     map (deactivate (superseded inputs))
       (records st @ [\<lparr>rid = fresh_id st, category = c, tier = t, record_text = txt,
                        consolidatedFrom = set (map rid inputs), createdAt = ts,
                        active = True\<rparr>])"
  using fresh_id_new[of st]
  by (simp add: commit_summary_def fold_setInactive write_record_def markConsumed_def
      superseded_def)

lemma consumed_commit_summary:
  "consumed (commit_summary t c txt inputs ts st) = consumed st \<union> rid ` set inputs"
  by (simp add: commit_summary_def fold_setInactive write_record_def markConsumed_def)








lemma set_oldest_first [simp]: "set (oldest_first rs) = set rs"
  by (simp add: oldest_first_def)






lemma force_elevation_fst:
  "fst (force_elevation env c st) =
     (let raws = oldest_first (unconsumed c Raw st);
          shorts = oldest_first (unconsumed c Short st);
          r1 = (if 1 \<le> length raws \<and> length raws < shortTrigger
                then consolidate env Short c raws st else (st, Skipped))
      in case snd r1 of
           Aborted e \<Rightarrow> fst r1
         | _ \<Rightarrow> fst (if 1 \<le> length shorts \<and> length shorts < midTrigger
                       then mid_and_long env c shorts (fst r1) else (fst r1, Skipped)))"
  by (simp add: force_elevation_def Let_def split: prod.splits cycle_outcome.splits)



lemma read_long_filter:
  "read c Long True st =
     filter (\<lambda>r. category r = c \<and> tier r = Long \<and> active r) (records st)"
  by (simp add: read_def)

lemma active_long_deactivate:
  "length (filter (\<lambda>r. category r = c \<and> tier r = Long \<and> active r) (map (deactivate D) xs))
     \<le> length (filter (\<lambda>r. category r = c \<and> tier r = Long \<and> active r) xs)"
  by (induction xs) (auto simp: deactivate_active)

lemma active_long_commit_other:
  assumes "t \<noteq> Long \<or> c \<noteq> c'"
  shows "length (read c' Long True (commit_summary t c body inputs ts st))
           \<le> length (read c' Long True st)"
  using assms active_long_deactivate[of c' "superseded inputs" "records st"]
  by (auto simp: read_long_filter records_commit_summary)

lemma active_long_consolidate_other:
  assumes "t \<noteq> Long \<or> c \<noteq> c'"
  shows "length (read c' Long True (fst (consolidate env t c inputs st)))
           \<le> length (read c' Long True st)"
  using active_long_commit_other[OF assms]
  by (simp add: consolidate_def split: option.splits)

lemma consolidate_cases:
  "fst (consolidate env t c inputs st) = st
   \<or> (\<exists>body. fst (consolidate env t c inputs st)
                 = commit_summary t c body inputs (now_ts env) st)"
  by (auto simp add: consolidate_def split: option.splits)

lemma active_long_merge_same:
  assumes "length (read c Long True st) \<le> 1"
  shows "length (read c Long True (fst (merge_long env c m st))) \<le> 1"
proof (cases "find (\<lambda>r. rid r = m) (records st)")
  case None
  then show ?thesis using assms by (simp add: merge_long_def)
next
  case (Some mr)
  let ?inputs = "(case current_long c st of None \<Rightarrow> [] | Some p \<Rightarrow> [p]) @ [mr]"
  let ?P = "\<lambda>r. category r = c \<and> tier r = Long \<and> active r"
  have gone: "filter ?P (map (deactivate (superseded ?inputs)) (records st)) = []"
  proof -
    have "\<not> ?P (deactivate (superseded ?inputs) r)" if "r \<in> set (records st)" for r
    proof
      assume p: "?P (deactivate (superseded ?inputs) r)"
      then have pr: "?P r" and nd: "rid r \<notin> superseded ?inputs"
        by (simp_all add: deactivate_active)
      from pr that have "r \<in> set (read c Long True st)" by (simp add: read_long_filter)
      moreover from this assms obtain p0 where l: "read c Long True st = [p0]"
        by (cases "read c Long True st") auto
      ultimately have "r = p0" by simp
      with l have "current_long c st = Some r" by (simp add: current_long_def)
      with pr have "rid r \<in> superseded ?inputs" by (simp add: superseded_def)
      with nd show False by contradiction
    qed
    then show ?thesis by (auto simp: filter_empty_conv)
  qed
  have "length (read c Long True (commit_summary Long c body ?inputs ts st)) \<le> 1" for body ts
    using gone by (simp add: read_long_filter records_commit_summary)
  moreover have "fst (merge_long env c m st) = fst (consolidate env Long c ?inputs st)"
    using Some by (simp add: merge_long_def)
  ultimately show ?thesis
    using assms consolidate_cases[of env Long c ?inputs st] by auto
qed

lemma inv_consolidate:
  "one_active_long st \<Longrightarrow> t \<noteq> Long \<Longrightarrow> one_active_long (fst (consolidate env t c inputs st))"
  unfolding one_active_long_def
  using active_long_consolidate_other[of t c _ env inputs st] by (meson le_trans)

lemma inv_merge_long:
  assumes "one_active_long st"
  shows "one_active_long (fst (merge_long env c m st))"
  unfolding one_active_long_def
proof
  fix c'
  show "length (read c' Long True (fst (merge_long env c m st))) \<le> 1"
  proof (cases "c' = c")
    case True
    then show ?thesis using active_long_merge_same assms by (simp add: one_active_long_def)
  next
    case False
    have "length (read c' Long True (fst (merge_long env c m st))) \<le> length (read c' Long True st)"
      using False active_long_consolidate_other[of Long c c' env _ st]
      by (auto simp: merge_long_def split: option.splits)
    then show ?thesis using assms unfolding one_active_long_def by (meson le_trans)
  qed
qed

lemma inv_mid_and_long:
  assumes "one_active_long st"
  shows "one_active_long (fst (mid_and_long env c inputs st))"
proof -
  obtain st1 out where co: "consolidate env Mid c inputs st = (st1, out)"
    by (cases "consolidate env Mid c inputs st")
  have i1: "one_active_long st1" using inv_consolidate[OF assms, of Mid env c inputs] co by simp
  show ?thesis using co i1 inv_merge_long[OF i1]
    by (cases out) (simp_all add: mid_and_long_def)
qed

lemma inv_short_step: "one_active_long st \<Longrightarrow> one_active_long (fst (short_step env c st))"
  by (simp add: short_step_def Let_def inv_consolidate)

lemma inv_mid_step: "one_active_long st \<Longrightarrow> one_active_long (fst (mid_step env c st))"
  by (simp add: mid_step_def Let_def inv_mid_and_long)

lemma inv_ladder:
  assumes "one_active_long st"
  shows "one_active_long (fst (ladder env c st))"
proof -
  obtain st1 out where s: "short_step env c st = (st1, out)" by (cases "short_step env c st")
  have i1: "one_active_long st1" using inv_short_step[OF assms, of env c] s by simp
  show ?thesis using s i1 inv_mid_step[OF i1] by (cases out) (simp_all add: ladder_def)
qed

lemma inv_force_elevation:
  assumes "one_active_long st"
  shows "one_active_long (fst (force_elevation env c st))"
proof -
  let ?r1 = "if 1 \<le> length (oldest_first (unconsumed c Raw st))
                \<and> length (oldest_first (unconsumed c Raw st)) < shortTrigger
             then consolidate env Short c (oldest_first (unconsumed c Raw st)) st
             else (st, Skipped)"
  have i1: "one_active_long (fst ?r1)" using assms by (simp add: inv_consolidate)
  show ?thesis
    using i1 inv_mid_and_long[OF i1]
    by (cases "snd ?r1") (simp_all add: force_elevation_fst Let_def)
qed

lemma inv_session_boundary:
  assumes "one_active_long st"
  shows "one_active_long (fst (session_boundary env c st))"
proof -
  obtain st1 out where s: "ladder env c st = (st1, out)" by (cases "ladder env c st")
  have i1: "one_active_long st1" using inv_ladder[OF assms, of env c] s by simp
  show ?thesis using s i1 inv_force_elevation[OF i1]
    by (cases out) (simp_all add: session_boundary_def)
qed

lemma inv_extract_write:
  "one_active_long st \<Longrightarrow> one_active_long (extract_write c body ts st)"
  by (simp add: one_active_long_def extract_write_def write_record_def read_long_filter)

lemma inv_sweep:
  "one_active_long st \<Longrightarrow>
     one_active_long (fold (\<lambda>c s. fst (session_boundary env c s)) cs st)"
  by (induction cs arbitrary: st) (simp_all add: inv_session_boundary)

lemma inv_apply_event: "one_active_long st \<Longrightarrow> one_active_long (apply_event st ev)"
  by (cases ev)
     (simp_all add: inv_extract_write inv_ladder inv_force_elevation inv_session_boundary
        inv_sweep)

lemma inv_run: "one_active_long st \<Longrightarrow> one_active_long (run evs st)"
  unfolding run_def by (induction evs arbitrary: st) (simp_all add: inv_apply_event)

lemma inv_empty: "one_active_long empty_store"
  by (simp add: one_active_long_def empty_store_def read_def)

lemma map_of_answered:
  "map_of (List.map_filter (answered ask K) cats) c =
     (if c \<in> set cats then map_option snd (answered ask K c) else None)"
proof (induction cats)
  case Nil
  show ?case by (simp add: map_filter_simps)
next
  case (Cons d cats)
  show ?case
  proof (cases "answered ask K d")
    case None
    then show ?thesis using Cons by (auto simp: map_filter_simps)
  next
    case (Some p)
    then have "fst p = d" by (auto simp: answered_def split: search_result.splits)
    then show ?thesis using Some Cons by (cases p) (auto simp: map_filter_simps)
  qed
qed

lemma map_filter_empty:
  "(\<forall>c \<in> set cats. f c = None) \<Longrightarrow> List.map_filter f cats = []"
  by (induction cats) (simp_all add: map_filter_simps)

text \<open>
  C3. A retrieval returns a result in every case, never an error to the caller. Its map
  has an entry exactly for the categories whose query was answered, holding that
  category's results (at most \<open>K\<close> of them, in the collaborator's order); a category whose
  query timed out or failed is left out, and so is every category that was not queried.
  The map is empty exactly when every category failed.
\<close>

theorem retrieve_is_best_effort:
  "\<exists>r. retrieve query K contextText userIds = Inr r
        \<and> (\<forall>c. memories r c =
              (if c \<in> set (retrieval_categories userIds)
               then (case query contextText c K of
                       Ranked rs \<Rightarrow> Some (take K rs) | _ \<Rightarrow> None)
               else None))
        \<and> (memories r = Map.empty \<longleftrightarrow>
             (\<forall>c \<in> set (retrieval_categories userIds).
                \<forall>rs. query contextText c K \<noteq> Ranked rs))"
proof -
  let ?cats = "retrieval_categories userIds"
  let ?hits = "List.map_filter (answered (\<lambda>c. query contextText c K) K) ?cats"
  let ?r = "\<lparr>memories = map_of ?hits, degraded = (length ?hits < length ?cats),
             retrieval_log =
               (if ?hits = [] then [''retrieval: every category failed''] else [])\<rparr>"
  have r: "retrieve query K contextText userIds = Inr ?r"
    by (simp add: retrieve_def Let_def)
  have m: "memories ?r c =
              (if c \<in> set ?cats
               then (case query contextText c K of
                       Ranked rs \<Rightarrow> Some (take K rs) | _ \<Rightarrow> None)
               else None)" for c
    by (auto simp: map_of_answered answered_def split: search_result.splits)
  have e: "memories ?r = Map.empty \<longleftrightarrow>
             (\<forall>c \<in> set ?cats. \<forall>rs. query contextText c K \<noteq> Ranked rs)"
  proof
    assume em: "memories ?r = Map.empty"
    show "\<forall>c \<in> set ?cats. \<forall>rs. query contextText c K \<noteq> Ranked rs"
    proof (intro ballI allI notI)
      fix c rs assume "c \<in> set ?cats" and "query contextText c K = Ranked rs"
      with m[of c] have "memories ?r c = Some (take K rs)" by simp
      with em show False by simp
    qed
  next
    assume a: "\<forall>c \<in> set ?cats. \<forall>rs. query contextText c K \<noteq> Ranked rs"
    have "memories ?r c = None" for c
      using a m[of c] by (auto split: search_result.splits)
    then show "memories ?r = Map.empty" by (intro ext) simp
  qed
  from r m e show ?thesis by blast
qed


lemma old_long_gone:
  assumes "length (read c Long True st) \<le> 1"
  shows "filter (\<lambda>r. category r = c \<and> tier r = Long \<and> active r)
           (map (deactivate (superseded
              ((case current_long c st of None \<Rightarrow> [] | Some p \<Rightarrow> [p]) @ [mr]))) (records st)) = []"
proof -
  let ?inputs = "(case current_long c st of None \<Rightarrow> [] | Some p \<Rightarrow> [p]) @ [mr]"
  let ?P = "\<lambda>r. category r = c \<and> tier r = Long \<and> active r"
  have "\<not> ?P (deactivate (superseded ?inputs) r)" if "r \<in> set (records st)" for r
  proof
    assume p: "?P (deactivate (superseded ?inputs) r)"
    then have pr: "?P r" and nd: "rid r \<notin> superseded ?inputs"
      by (simp_all add: deactivate_active)
    from pr that have "r \<in> set (read c Long True st)" by (simp add: read_long_filter)
    moreover from this assms obtain p0 where l: "read c Long True st = [p0]"
      by (cases "read c Long True st") auto
    ultimately have "r = p0" by simp
    with l have "current_long c st = Some r" by (simp add: current_long_def)
    with pr have "rid r \<in> superseded ?inputs" by (simp add: superseded_def)
    with nd show False by contradiction
  qed
  then show ?thesis by (auto simp: filter_empty_conv)
qed

lemma current_long_in:
  "current_long c st = Some p \<Longrightarrow>
     p \<in> set (records st) \<and> category p = c \<and> tier p = Long \<and> active p"
proof -
  assume "current_long c st = Some p"
  then have "p \<in> set (read c Long True st)"
    by (cases "read c Long True st") (simp_all add: current_long_def)
  then show ?thesis by (simp add: read_long_filter)
qed

lemma merge_long_effect:
  assumes inv: "length (read c Long True st) \<le> 1"
    and cur: "current_long c st = Some p"
    and out: "snd (merge_long env c mid_id st) = Produced l"
  shows "(\<forall>r \<in> set (records (fst (merge_long env c mid_id st))). rid r = rid p \<longrightarrow> \<not> active r)
       \<and> (\<exists>n. read c Long True (fst (merge_long env c mid_id st)) = [n]
               \<and> rid n = l \<and> consolidatedFrom n = {rid p, mid_id})"
proof (cases "find (\<lambda>r. rid r = mid_id) (records st)")
  case None
  with out show ?thesis by (simp add: merge_long_def)
next
  case (Some mr)
  then have mr: "mr \<in> set (records st)" "rid mr = mid_id"
    by (auto simp: find_Some_iff)
  let ?inputs = "[p, mr]"
  have ml: "merge_long env c mid_id st = consolidate env Long c ?inputs st"
    using Some cur by (simp add: merge_long_def)
  from out obtain body where
    st': "fst (merge_long env c mid_id st) = commit_summary Long c body ?inputs (now_ts env) st"
    and l: "l = fresh_id st"
    unfolding ml by (auto simp: consolidate_def split: if_splits option.splits)
  from current_long_in[OF cur] have p: "p \<in> set (records st)" "tier p = Long" by simp_all
  have pD: "rid p \<in> superseded ?inputs" using p(2) by (simp add: superseded_def)
  have "superseded ?inputs \<subseteq> {rid p, rid mr}" by (auto simp: superseded_def)
  then have fresh: "fresh_id st \<notin> superseded ?inputs"
    using fresh_id_above[OF p(1)] fresh_id_above[OF mr(1)] by auto
  let ?n = "\<lparr>rid = fresh_id st, category = c, tier = Long, record_text = body,
             consolidatedFrom = set (map rid ?inputs), createdAt = now_ts env, active = True\<rparr>"
  have recs: "records (fst (merge_long env c mid_id st)) =
      map (deactivate (superseded ?inputs)) (records st) @ [deactivate (superseded ?inputs) ?n]"
    unfolding st' by (simp add: records_commit_summary)
  have gone: "filter (\<lambda>r. category r = c \<and> tier r = Long \<and> active r)
           (map (deactivate (superseded ?inputs)) (records st)) = []"
    using old_long_gone[OF inv, of mr] cur by simp
  have a: "\<forall>r \<in> set (records (fst (merge_long env c mid_id st))). rid r = rid p \<longrightarrow> \<not> active r"
    unfolding recs using pD by (auto simp: deactivate_active)
  have "read c Long True (fst (merge_long env c mid_id st)) = [deactivate (superseded ?inputs) ?n]"
    unfolding read_long_filter recs using gone fresh by (simp add: deactivate_active)
  moreover have "rid (deactivate (superseded ?inputs) ?n) = l" by (simp add: l)
  moreover have "consolidatedFrom (deactivate (superseded ?inputs) ?n) = {rid p, mid_id}"
    using mr(2) by simp
  ultimately show ?thesis using a by blast
qed

text \<open>
  C2. After every sequence of operations of the subsystem, started from the empty store,
  each category has at most one active long-tier record. A long merge keeps that true in
  the store it leaves, and when it produces a new long summary over a current one, every
  record with the previous long id is inactive and the one active long record is the new
  one, consolidated from the previous long id and the mid id.
\<close>

theorem at_most_one_active_long:
  "length (read c Long True (run evs empty_store)) \<le> 1
   \<and> (one_active_long st \<longrightarrow> one_active_long (fst (merge_long env c mid_id st)))
   \<and> (one_active_long st \<and> current_long c st = Some p
        \<and> snd (merge_long env c mid_id st) = Produced l \<longrightarrow>
        (\<forall>r \<in> set (records (fst (merge_long env c mid_id st))). rid r = rid p \<longrightarrow> \<not> active r)
        \<and> (\<exists>n. read c Long True (fst (merge_long env c mid_id st)) = [n]
                \<and> rid n = l \<and> consolidatedFrom n = {rid p, mid_id}))"
proof (intro conjI impI)
  have "one_active_long (run evs empty_store)" by (rule inv_run[OF inv_empty])
  then show "length (read c Long True (run evs empty_store)) \<le> 1"
    by (simp add: one_active_long_def)
  show "one_active_long (fst (merge_long env c mid_id st))" if "one_active_long st"
    using that by (rule inv_merge_long)
  assume h: "one_active_long st \<and> current_long c st = Some p
        \<and> snd (merge_long env c mid_id st) = Produced l"
  then have "length (read c Long True st) \<le> 1" by (simp add: one_active_long_def)
  from merge_long_effect[OF this] h
  show "\<forall>r \<in> set (records (fst (merge_long env c mid_id st))). rid r = rid p \<longrightarrow> \<not> active r"
    and "\<exists>n. read c Long True (fst (merge_long env c mid_id st)) = [n]
                \<and> rid n = l \<and> consolidatedFrom n = {rid p, mid_id}"
    by blast+
qed

lemma two_merges_longs:
  "map (\<lambda>r. (rid r, active r, consolidatedFrom r))
     (read WorldKnowledge Long False (run two_merges empty_store))
     = [(4, False, {3}), (8, True, {4, 7})]"
  by code_simp

lemma merge_ready_inv: "one_active_long merge_ready"
  by (auto simp: one_active_long_def read_def merge_ready_def)

lemma merge_ready_eval:
  "current_long WorldKnowledge merge_ready =
     Some \<lparr>rid = 4, category = WorldKnowledge, tier = Long, record_text = ''a'',
           consolidatedFrom = {3}, createdAt = 3, active = True\<rparr>"
  "snd (merge_long (echo_env 6) WorldKnowledge 7 merge_ready) = Produced 8"
  "map (\<lambda>r. (rid r, active r, consolidatedFrom r))
     (read WorldKnowledge Long False (fst (merge_long (echo_env 6) WorldKnowledge 7 merge_ready)))
     = [(4, False, {3}), (8, True, {4, 7})]"
  by code_simp+

theorem at_most_one_active_long_witness:
  "length (read WorldKnowledge Long True (run two_merges empty_store)) \<le> 1
   \<and> map (\<lambda>r. (rid r, active r, consolidatedFrom r))
       (read WorldKnowledge Long False (run two_merges empty_store))
       = [(4, False, {3}), (8, True, {4, 7})]
   \<and> one_active_long merge_ready
   \<and> one_active_long (fst (merge_long (echo_env 6) WorldKnowledge 7 merge_ready))
   \<and> snd (merge_long (echo_env 6) WorldKnowledge 7 merge_ready) = Produced 8
   \<and> map (\<lambda>r. (rid r, active r, consolidatedFrom r))
       (read WorldKnowledge Long False (fst (merge_long (echo_env 6) WorldKnowledge 7 merge_ready)))
       = [(4, False, {3}), (8, True, {4, 7})]"
  using at_most_one_active_long[of WorldKnowledge two_merges merge_ready "echo_env 6" 7
          "\<lparr>rid = 4, category = WorldKnowledge, tier = Long, record_text = ''a'',
            consolidatedFrom = {3}, createdAt = 3, active = True\<rparr>" 8]
    two_merges_longs merge_ready_inv merge_ready_eval
  by simp

subsection \<open>Distinct ids\<close>
















subsection \<open>A cycle that cannot write\<close>











subsection \<open>Pending raw records are untouched by the upper tiers\<close>




lemma consolidate_unproduced:
  assumes "consolidate env t c inputs st = (st1, out)" and "\<forall>i. out \<noteq> Produced i"
  shows "st1 = st"
  using assms by (auto simp: consolidate_def split: if_splits option.splits)




subsection \<open>A working cycle does not abort\<close>









subsection \<open>All or nothing\<close>

lemma consolidate_all_or_nothing:
  "(fst (consolidate env t c inputs st) = st
      \<and> (\<forall>i. snd (consolidate env t c inputs st) \<noteq> Produced i))
   \<or> (\<exists>s \<in> set (records (fst (consolidate env t c inputs st))).
         rid s = fresh_id st \<and> tier s = t \<and> category s = c
         \<and> consolidatedFrom s = rid ` set inputs
         \<and> rid ` set inputs \<subseteq> consumed (fst (consolidate env t c inputs st))
         \<and> snd (consolidate env t c inputs st) = Produced (fresh_id st))"
  by (auto simp: consolidate_def records_commit_summary consumed_commit_summary
        split: option.splits)

lemma commit_after_first_operation:
  "records (write_record
      \<lparr>rid = fresh_id two_raw, category = WorldKnowledge, tier = Short, record_text = ''ab'',
        consolidatedFrom = {1, 2}, createdAt = 3, active = True\<rparr> two_raw)
     = records two_raw
       @ [\<lparr>rid = 3, category = WorldKnowledge, tier = Short, record_text = ''ab'',
            consolidatedFrom = {1, 2}, createdAt = 3, active = True\<rparr>]
   \<and> consumed (write_record
      \<lparr>rid = fresh_id two_raw, category = WorldKnowledge, tier = Short, record_text = ''ab'',
        consolidatedFrom = {1, 2}, createdAt = 3, active = True\<rparr> two_raw) = {}"
  by (simp add: write_record_def two_raw_def fresh_id_def)











theorem retrieve_is_best_effort_witness:
  "(case retrieve flaky_search 2 ''ctx'' [''ann'', ''bob''] of
      Inl e \<Rightarrow> []
    | Inr r \<Rightarrow> map (memories r)
        [WorldKnowledge, CryptoEcosystemKnowledge, SelfReflection, UserSpecific ''ann'',
         UserSpecific ''bob'', PrimaryPostContent, GeneratedMediaPrompts, UserSpecific ''zed''])
   = [Some [''w1'', ''w2''], Some [], None, Some [''ann''], None, Some [], Some [], None]"
proof -
  from retrieve_is_best_effort[of flaky_search 2 "''ctx''" "[''ann'', ''bob'']"]
  obtain r where r: "retrieve flaky_search 2 ''ctx'' [''ann'', ''bob''] = Inr r"
    and m: "\<And>c. memories r c =
              (if c \<in> set (retrieval_categories [''ann'', ''bob''])
               then (case flaky_search ''ctx'' c 2 of
                       Ranked rs \<Rightarrow> Some (take 2 rs) | _ \<Rightarrow> None)
               else None)" by blast
  show ?thesis
    unfolding r by (simp add: m retrieval_categories_def flaky_search_def)
qed

section \<open>Properties of the agent loop\<close>






text \<open>
  C8. In every run of the loop, whatever its length, each call of
  \<open>clearShortTermHistory\<close> comes directly after a call of \<open>extractAndSaveLearnings\<close>
  for the session that has resolved; and in a pass whose extraction does not resolve
  (it fails, or never settles) the short-term history is not cleared.
\<close>

theorem clear_only_after_successful_extraction:
  "cleared_only_after_success sessionId (new_calls w (snd (main_loop n sessionId envs k w)))
   \<and> (extractAndSaveLearnings_out env \<noteq> Resolved () \<longrightarrow>
        (\<forall>c \<in> set (new_calls w (snd (loop_iteration sessionId env w))).
           fst c \<noteq> ClearShortTermHistory))"
proof -
  from main_loop_cleared[of n sessionId envs k w] obtain new where
    "calls (snd (main_loop n sessionId envs k w)) = calls w @ new"
    "cleared_only_after_success sessionId new" by blast
  then have "cleared_only_after_success sessionId
      (new_calls w (snd (main_loop n sessionId envs k w)))"
    by (simp add: new_calls_append)
  then show ?thesis using loop_iteration_no_clear by blast
qed

theorem clear_only_after_successful_extraction_witness:
  "cleared_only_after_success ''s''
     (new_calls w0 (snd (main_loop 1 ''s'' (\<lambda>_. session_env (Resolved ())) 0 w0)))
   \<and> (ClearShortTermHistory, Fulfilled)
       \<in> set (new_calls w0 (snd (main_loop 1 ''s'' (\<lambda>_. session_env (Resolved ())) 0 w0)))
   \<and> extractAndSaveLearnings_out (session_env (Rejected ''StoreUnavailable'')) \<noteq> Resolved ()
   \<and> ClearShortTermHistory
       \<notin> fst ` set (new_calls w0
           (snd (loop_iteration ''s'' (session_env (Rejected ''StoreUnavailable'')) w0)))"
  using clear_only_after_successful_extraction
          [of "''s''" w0 1 "\<lambda>_. session_env (Resolved ())" 0
              "session_env (Rejected ''StoreUnavailable'')"]
  by (auto simp add: fine_iteration new_calls_def w0_def session_env_sel)



section \<open>Properties of \<open>replyToTweet\<close>\<close>

text \<open>
  C10. When \<open>hasAlreadyActioned(replyToTweetId, 'reply')\<close> answers true, \<open>replyToTweet\<close>
  returns \<open>{success: false, message: 'Already replied to this tweet'}\<close>, and the only
  call it has made is that check: the trace grows by the check alone (no like, no tweet
  sent, no tweet entry and no interaction entry written) and the logger gets one line.
\<close>

theorem replyToTweet_already_replied:
  assumes "hasAlreadyActioned_out env = Resolved True"
  shows "replyToTweet env replyToTweetId text mediaUrls twitterInterface w =
           (Resolved \<lparr>success = False, message_r = ''Already replied to this tweet'',
                      tweetId = None\<rparr>,
            w\<lparr>calls := calls w @ [(HasAlreadyActioned replyToTweetId ''reply'', Fulfilled)],
              logs := logs w @ [''Already replied to tweet '' @ replyToTweetId]\<rparr>)"
  using assms
  by (simp add: replyToTweet_def replyToTweet_try_def try_catch_def await_def log_line_def
      ret_def)

theorem replyToTweet_already_replied_witness:
  "hasAlreadyActioned_out replied_env = Resolved True \<and>
   replyToTweet replied_env ''1001'' ''gm'' None None w0 =
     (Resolved \<lparr>success = False, message_r = ''Already replied to this tweet'',
                tweetId = None\<rparr>,
      \<lparr>calls = [(HasAlreadyActioned ''1001'' ''reply'', Fulfilled)],
       logs = [''Already replied to tweet 1001'']\<rparr>)"
  using replyToTweet_already_replied[of replied_env "''1001''" "''gm''" None None w0]
  by (simp add: replied_env_def w0_def)

end
